theory Spec2Isabelle
  imports Main
begin

section \<open>The esbuild obfuscator plugin: data model\<close>

text \<open>
  The plugin of \<^verbatim>\<open>esbuild-obfuscator.ts\<close> registers one \<^verbatim>\<open>onEnd\<close> callback. The
  callback inspects the build result, and for every key of \<^verbatim>\<open>result.metafile.outputs\<close>
  that ends with \<^verbatim>\<open>.js\<close> it reads the file, passes the text to \<^verbatim>\<open>obfuscate\<close> and writes
  the returned text back. Strings are \<^typ>\<open>string\<close>; the options object
  \<^verbatim>\<open>{ [key: string]: unknown }\<close> is a map from keys to values of an arbitrary type.
\<close>

type_synonym 'v ObfuscatorPluginOptions = "string \<rightharpoonup> 'v"

text \<open>
  Of esbuild's \<^verbatim>\<open>BuildResult\<close> the callback reads \<^verbatim>\<open>errors\<close> and \<^verbatim>\<open>metafile\<close>, of the
  metafile only \<^verbatim>\<open>outputs\<close>. An object's keys are enumerated in insertion order, so
  \<^verbatim>\<open>outputs\<close> is an association list.
\<close>

record 'o Metafile =
  outputs :: "(string \<times> 'o) list"

record ('m, 'o) BuildResult =
  errors :: "'m list"
  metafile :: "'o Metafile option"

definition Object_keys :: "(string \<times> 'o) list \<Rightarrow> string list" where
  "Object_keys obj = map fst obj"

text \<open>
  \<^verbatim>\<open>String.prototype.endsWith(searchString)\<close> with the default end position: the start
  of the compared slice is the length of the string minus the length of the search string;
  a negative start gives \<^verbatim>\<open>false\<close>, otherwise the slice is compared with the search string.
\<close>

definition endsWith :: "string \<Rightarrow> string \<Rightarrow> bool" where
  "endsWith s searchString =
     (let len = int (length s);
          start = len - int (length searchString)
      in if start < 0 then False else drop (nat start) s = searchString)"

subsection \<open>The world outside the callback\<close>

text \<open>
  The filesystem holds the text of every existing file (the encoding as UTF-8 is left
  out). \<^verbatim>\<open>fs.readFile\<close> rejects for a path that holds no file; \<^verbatim>\<open>fs.writeFile\<close> rejects
  for a path that cannot be written, leaving the file as it was, and replaces the whole
  content otherwise.
\<close>

record filesystem =
  files :: "string \<rightharpoonup> string"
  writable :: "string \<Rightarrow> bool"

text \<open>
  \<^verbatim>\<open>path.resolve\<close> (which depends on the working directory and the platform) and
  \<^verbatim>\<open>obfuscate(code, options).getObfuscatedCode()\<close> of the javascript-obfuscator package
  are parameters. A call of the latter returns the obfuscated text (\<open>Inr\<close>) or throws
  (\<open>Inl\<close>, with the message).
\<close>

record 'v runtime =
  resolve :: "string \<Rightarrow> string"
  obfuscate :: "string \<Rightarrow> 'v ObfuscatorPluginOptions \<Rightarrow> string + string"

datatype error = ReadError string | ObfuscateError string | WriteError string

text \<open>
  What a task did, in the order it happened. Each entry of the log is tagged with the
  \<^verbatim>\<open>outputFile\<close> of the task that caused it.
\<close>

datatype 'v effect =
    ReadFile string
  | Obfuscate string "'v ObfuscatorPluginOptions"
  | WriteFile string string

subsection \<open>Tasks and the state of one callback invocation\<close>

text \<open>
  \<^verbatim>\<open>outputFiles.map(async (outputFile) => ...)\<close> starts one task per key. A task is
  suspended at one of its two \<^verbatim>\<open>await\<close>s, or has returned, or has thrown:
  \<^item> \<open>Reading outputFile filePath\<close>: waiting for \<^verbatim>\<open>fs.readFile(filePath, 'utf8')\<close>;
  \<^item> \<open>Writing outputFile filePath obfuscatedCode\<close>: waiting for
    \<^verbatim>\<open>fs.writeFile(filePath, obfuscatedCode, 'utf8')\<close>;
  \<^item> \<open>Done\<close>: the task's promise is fulfilled;
  \<^item> \<open>Failed e\<close>: the task's promise is rejected with \<open>e\<close>.
\<close>

datatype task =
    Reading string string
  | Writing string string string
  | Done
  | Failed error

record 'v hook_state =
  fs :: filesystem
  console :: "string list"
  io :: "(string \<times> 'v effect) list"
  tasks :: "task list"
  rejection :: "error option"

text \<open>
  The body of the mapped function up to its first \<^verbatim>\<open>await\<close>: a key that does not end
  with \<^verbatim>\<open>.js\<close> skips the \<^verbatim>\<open>if\<close> and the task returns at once; otherwise the path is
  resolved and the read is started.
\<close>

definition spawn :: "'v runtime \<Rightarrow> string \<Rightarrow> task" where
  "spawn rt outputFile =
     (if endsWith outputFile ''.js''
      then (let filePath = resolve rt outputFile in Reading outputFile filePath)
      else Done)"

text \<open>
  Task \<open>i\<close> throws \<open>e\<close>. \<^verbatim>\<open>Promise.all\<close> rejects with the first rejection it sees and
  ignores later ones; the other tasks are not cancelled.
\<close>

definition reject :: "nat \<Rightarrow> error \<Rightarrow> 'v hook_state \<Rightarrow> 'v hook_state" where
  "reject i e st =
     st\<lparr>tasks := (tasks st)[i := Failed e],
        rejection := (case rejection st of None \<Rightarrow> Some e | Some e0 \<Rightarrow> Some e0)\<rparr>"

text \<open>
  The pending operation of task \<open>i\<close> completes and the task runs to its next
  \<^verbatim>\<open>await\<close>, to its end or to a throw. After the read: \<^verbatim>\<open>obfuscate(code, options)\<close> is
  called synchronously and the write is started. After the write: the task returns. A
  task that has returned or thrown, and an index that is no task, have nothing pending.
\<close>

definition step :: "'v runtime \<Rightarrow> 'v ObfuscatorPluginOptions \<Rightarrow> nat \<Rightarrow> 'v hook_state \<Rightarrow> 'v hook_state" where
  "step rt options i st =
     (if i < length (tasks st) then
        (case tasks st ! i of
           Reading outputFile filePath \<Rightarrow>
             (case files (fs st) filePath of
                None \<Rightarrow>
                  reject i (ReadError filePath)
                    (st\<lparr>io := io st @ [(outputFile, ReadFile filePath)]\<rparr>)
              | Some code \<Rightarrow>
                  (case obfuscate rt code options of
                     Inl msg \<Rightarrow>
                       reject i (ObfuscateError msg)
                         (st\<lparr>io := io st @ [(outputFile, ReadFile filePath),
                                             (outputFile, Obfuscate code options)]\<rparr>)
                   | Inr obfuscatedCode \<Rightarrow>
                       st\<lparr>io := io st @ [(outputFile, ReadFile filePath),
                                          (outputFile, Obfuscate code options)],
                          tasks := (tasks st)[i := Writing outputFile filePath obfuscatedCode]\<rparr>))
         | Writing outputFile filePath obfuscatedCode \<Rightarrow>
             (if writable (fs st) filePath
              then st\<lparr>fs := (fs st)\<lparr>files := (files (fs st))(filePath \<mapsto> obfuscatedCode)\<rparr>,
                      io := io st @ [(outputFile, WriteFile filePath obfuscatedCode)],
                      tasks := (tasks st)[i := Done]\<rparr>
              else reject i (WriteError filePath)
                     (st\<lparr>io := io st @ [(outputFile, WriteFile filePath obfuscatedCode)]\<rparr>))
         | Done \<Rightarrow> st
         | Failed e \<Rightarrow> st)
      else st)"

text \<open>
  The order in which the pending operations complete is not fixed by the program. A
  schedule lists, in order, the index of the task whose pending operation completes next.
\<close>

fun run :: "'v runtime \<Rightarrow> 'v ObfuscatorPluginOptions \<Rightarrow> nat list \<Rightarrow> 'v hook_state \<Rightarrow> 'v hook_state" where
  "run rt options [] st = st"
| "run rt options (i # sched) st = run rt options sched (step rt options i st)"

definition idle :: "filesystem \<Rightarrow> 'v hook_state" where
  "idle w = \<lparr>fs = w, console = [], io = [], tasks = [], rejection = None\<rparr>"

text \<open>The callback passed to \<^verbatim>\<open>build.onEnd\<close>.\<close>

definition onEnd ::
  "'v runtime \<Rightarrow> 'v ObfuscatorPluginOptions \<Rightarrow> nat list \<Rightarrow> ('m, 'o) BuildResult \<Rightarrow> filesystem
     \<Rightarrow> 'v hook_state" where
  "onEnd rt options sched result w =
     (if length (errors result) \<noteq> 0 then idle w
      else (case metafile result of
              None \<Rightarrow>
                (idle w)\<lparr>console := [''Metafile is required for the obfuscator plugin to work.'']\<rparr>
            | Some m \<Rightarrow>
                (let outputFiles = Object_keys (outputs m)
                 in run rt options sched ((idle w)\<lparr>tasks := map (spawn rt) outputFiles\<rparr>))))"

text \<open>
  The promise the callback returns: rejected with the first rejection of a task, fulfilled
  when the callback returned early or every task is done, pending otherwise.
\<close>

datatype outcome = Pending | Fulfilled | Rejected error

definition all_done :: "task list \<Rightarrow> bool" where
  "all_done ts = (filter (\<lambda>t. t \<noteq> Done) ts = [])"

definition outcome :: "'v hook_state \<Rightarrow> outcome" where
  "outcome st =
     (case rejection st of
        Some e \<Rightarrow> Rejected e
      | None \<Rightarrow> if all_done (tasks st) then Fulfilled else Pending)"

subsection \<open>The plugin factory\<close>




subsection \<open>The process around the callback\<close>




section \<open>Notions used to state the properties\<close>

text \<open>The keys the callback selects, in manifest order.\<close>

definition selected :: "string list \<Rightarrow> string list" where
  "selected outputFiles = filter (\<lambda>outputFile. endsWith outputFile ''.js'') outputFiles"

text \<open>The state right after \<^verbatim>\<open>outputFiles.map(...)\<close>, before any operation completes.\<close>

definition start :: "'v runtime \<Rightarrow> string list \<Rightarrow> filesystem \<Rightarrow> 'v hook_state" where
  "start rt outputFiles w = (idle w)\<lparr>tasks := map (spawn rt) outputFiles\<rparr>"



text \<open>The task at position \<open>i\<close> belongs to the key at position \<open>i\<close>.\<close>

fun shape :: "'v runtime \<Rightarrow> string \<Rightarrow> task \<Rightarrow> bool" where
  "shape rt k (Reading outputFile filePath) =
     (outputFile = k \<and> endsWith k ''.js'' \<and> filePath = resolve rt k)"
| "shape rt k (Writing outputFile filePath obfuscatedCode) =
     (outputFile = k \<and> endsWith k ''.js'' \<and> filePath = resolve rt k)"
| "shape rt k Done = True"
| "shape rt k (Failed e) = endsWith k ''.js''"

text \<open>Every logged effect comes from the task of a selected key and has that task's arguments.\<close>

fun by_task ::
  "'v runtime \<Rightarrow> 'v ObfuscatorPluginOptions \<Rightarrow> string list \<Rightarrow> string \<times> 'v effect \<Rightarrow> bool" where
  "by_task rt options ks (k, ReadFile p) =
     (k \<in> set ks \<and> endsWith k ''.js'' \<and> p = resolve rt k)"
| "by_task rt options ks (k, Obfuscate c given) =
     (k \<in> set ks \<and> endsWith k ''.js'' \<and> given = options)"
| "by_task rt options ks (k, WriteFile p x) =
     (k \<in> set ks \<and> endsWith k ''.js'' \<and> p = resolve rt k)"

text \<open>\<^verbatim>\<open>Promise.all\<close> is rejected exactly when a task has thrown, with an error a task threw.\<close>

definition rejection_ok :: "'v hook_state \<Rightarrow> bool" where
  "rejection_ok st =
     (case rejection st of
        None \<Rightarrow> \<forall>e. Failed e \<notin> set (tasks st)
      | Some e \<Rightarrow> Failed e \<in> set (tasks st))"

text \<open>
  One task run on its own, from the filesystem the callback started with, after \<open>n\<close> of
  its operations have completed: the state of the task, what it did, and the content of
  its file.
\<close>

definition expected ::
  "'v runtime \<Rightarrow> 'v ObfuscatorPluginOptions \<Rightarrow> filesystem \<Rightarrow> string \<Rightarrow> nat
     \<Rightarrow> task \<times> (string \<times> 'v effect) list \<times> string option" where
  "expected rt options w outputFile n =
     (let filePath = resolve rt outputFile in
      if n = 0 then (Reading outputFile filePath, [], files w filePath)
      else
        (case files w filePath of
           None \<Rightarrow> (Failed (ReadError filePath), [(outputFile, ReadFile filePath)], None)
         | Some code \<Rightarrow>
             (case obfuscate rt code options of
                Inl msg \<Rightarrow>
                  (Failed (ObfuscateError msg),
                   [(outputFile, ReadFile filePath), (outputFile, Obfuscate code options)],
                   Some code)
              | Inr obfuscatedCode \<Rightarrow>
                  if n = 1
                  then (Writing outputFile filePath obfuscatedCode,
                        [(outputFile, ReadFile filePath), (outputFile, Obfuscate code options)],
                        Some code)
                  else if writable w filePath
                  then (Done,
                        [(outputFile, ReadFile filePath), (outputFile, Obfuscate code options),
                         (outputFile, WriteFile filePath obfuscatedCode)],
                        Some obfuscatedCode)
                  else (Failed (WriteError filePath),
                        [(outputFile, ReadFile filePath), (outputFile, Obfuscate code options),
                         (outputFile, WriteFile filePath obfuscatedCode)],
                        Some code))))"

text \<open>What the state of the callback shows of task \<open>i\<close>, its key \<open>k\<close> and its file \<open>p\<close>.\<close>

definition view ::
  "'v hook_state \<Rightarrow> nat \<Rightarrow> string \<Rightarrow> string
     \<Rightarrow> task \<times> (string \<times> 'v effect) list \<times> string option" where
  "view st i k p = (tasks st ! i, filter (\<lambda>e. fst e = k) (io st), files (fs st) p)"

text \<open>No other selected key resolves to the file of the key at position \<open>i\<close>.\<close>

definition alone :: "'v runtime \<Rightarrow> string list \<Rightarrow> nat \<Rightarrow> bool" where
  "alone rt ks i =
     (\<forall>j<length ks. j \<noteq> i \<longrightarrow> endsWith (ks ! j) ''.js''
        \<longrightarrow> resolve rt (ks ! j) \<noteq> resolve rt (ks ! i))"


text \<open>
  Modelled from the spec: the javascript-obfuscator package, whose \<^verbatim>\<open>obfuscate\<close> the
  callback calls, is not among the sources. Of its result on the empty text the spec says
  that "transformation of empty content yields empty content".
\<close>

definition empty_yields_empty :: "'v runtime \<Rightarrow> 'v ObfuscatorPluginOptions \<Rightarrow> bool" where
  "empty_yields_empty rt options = (obfuscate rt [] options = Inr [])"

text \<open>The file at \<open>p\<close> is empty and every write of it that is pending writes the empty text.\<close>

definition empty_at :: "string \<Rightarrow> 'v hook_state \<Rightarrow> bool" where
  "empty_at p st =
     (files (fs st) p = Some [] \<and> (\<forall>k x. Writing k p x \<in> set (tasks st) \<longrightarrow> x = []))"

subsection \<open>A small build, after the package's tests\<close>

text \<open>
  A working directory \<^verbatim>\<open>/tmp\<close>, an obfuscator that prefixes a declaration, rejects one
  malformed program and leaves the empty program empty, and a build that wrote a script,
  a stylesheet and an empty script.
\<close>

definition test_runtime :: "bool runtime" where
  "test_runtime =
     \<lparr>resolve = (\<lambda>outputFile. ''/tmp/'' @ outputFile),
      obfuscate = (\<lambda>code options.
         if code = [] then Inr []
         else if code = ''f('' then Inl ''Unexpected token''
         else Inr (''var _0x;'' @ code))\<rparr>"

definition test_files :: filesystem where
  "test_files =
     \<lparr>files = [''/tmp/script.js'' \<mapsto> ''test();'', ''/tmp/style.css'' \<mapsto> ''body {}'',
               ''/tmp/empty.js'' \<mapsto> [], ''/tmp/broken.js'' \<mapsto> ''f(''],
      writable = (\<lambda>filePath. filePath \<noteq> ''/tmp/locked.js'')\<rparr>"

definition test_outputs :: "(string \<times> unit) list" where
  "test_outputs = [(''script.js'', ()), (''style.css'', ()), (''empty.js'', ())]"

definition test_result :: "(string, unit) BuildResult" where
  "test_result = \<lparr>errors = [], metafile = Some \<lparr>outputs = test_outputs\<rparr>\<rparr>"

definition test_options :: "bool ObfuscatorPluginOptions" where
  "test_options = [''renameGlobals'' \<mapsto> True]"

definition test_broken_result :: "(string, unit) BuildResult" where
  "test_broken_result =
     \<lparr>errors = [], metafile = Some \<lparr>outputs = [(''script.js'', ()), (''broken.js'', ())]\<rparr>\<rparr>"



definition test_module_result :: "(string, unit) BuildResult" where
  "test_module_result =
     \<lparr>errors = [], metafile = Some \<lparr>outputs = [(''dist/chunk.mjs'', ()), (''out.js'', ())]\<rparr>\<rparr>"

section \<open>Properties of the model\<close>

subsection \<open>The suffix test\<close>

lemma endsWith_iff_append: "endsWith s x \<longleftrightarrow> (\<exists>pre. s = pre @ x)"
proof (cases "length x \<le> length s")
  case True
  then have start: "\<not> int (length s) - int (length x) < 0"
    and n: "nat (int (length s) - int (length x)) = length s - length x"
    by simp_all
  have "drop (length s - length x) s = x \<longleftrightarrow> (\<exists>pre. s = pre @ x)"
  proof
    assume "drop (length s - length x) s = x"
    then have "s = take (length s - length x) s @ x"
      by (metis append_take_drop_id)
    then show "\<exists>pre. s = pre @ x" ..
  next
    assume "\<exists>pre. s = pre @ x"
    then obtain pre where "s = pre @ x" ..
    then show "drop (length s - length x) s = x" by simp
  qed
  with start n show ?thesis
    by (simp add: endsWith_def Let_def)
next
  case False
  then have "int (length s) - int (length x) < 0" by simp
  moreover from False have "\<not> (\<exists>pre. s = pre @ x)" by auto
  ultimately show ?thesis
    by (simp add: endsWith_def Let_def)
qed

lemma endsWith_js_last3:
  "endsWith p ''.js'' \<longleftrightarrow> 3 \<le> length p \<and> drop (length p - 3) p = ''.js''"
proof -
  have "nat (int (length p) - 3) = length p - 3" by arith
  then show ?thesis
    by (auto simp: endsWith_def Let_def)
qed

lemma not_js_of_other_suffix:
  assumes "endsWith p ''.mjs'' \<or> endsWith p ''.cjs'' \<or> endsWith p ''.JS''
             \<or> endsWith p ''.ts'' \<or> endsWith p ''.json''"
  shows "\<not> endsWith p ''.js''"
  using assms by (auto simp: endsWith_iff_append)

subsection \<open>The callback's three paths\<close>

lemma onEnd_errors: "errors result \<noteq> [] \<Longrightarrow> onEnd rt options sched result w = idle w"
  by (simp add: onEnd_def)

lemma onEnd_no_metafile:
  "errors result = [] \<Longrightarrow> metafile result = None \<Longrightarrow>
     onEnd rt options sched result w =
       (idle w)\<lparr>console := [''Metafile is required for the obfuscator plugin to work.'']\<rparr>"
  by (simp add: onEnd_def)

lemma onEnd_metafile:
  "errors result = [] \<Longrightarrow> metafile result = Some m \<Longrightarrow>
     onEnd rt options sched result w =
       run rt options sched (start rt (Object_keys (outputs m)) w)"
  by (simp add: onEnd_def start_def)

subsection \<open>Schedules\<close>

lemma run_append: "run rt options (a @ b) st = run rt options b (run rt options a st)"
  by (induction a arbitrary: st) simp_all

lemma run_snoc: "run rt options (sched @ [i]) st = step rt options i (run rt options sched st)"
  by (simp add: run_append)

subsection \<open>What no step changes\<close>

lemma writable_step: "writable (fs (step rt options i st)) = writable (fs st)"
  by (simp add: step_def reject_def split: task.splits option.splits sum.splits)


lemma writable_run: "writable (fs (run rt options sched st)) = writable (fs st)"
  by (induction sched arbitrary: st) (simp_all add: writable_step)


lemma rejection_step: "rejection st = Some e \<Longrightarrow> rejection (step rt options i st) = Some e"
  by (simp add: step_def reject_def split: task.splits option.splits sum.splits)

lemma rejection_run: "rejection st = Some e \<Longrightarrow> rejection (run rt options sched st) = Some e"
  by (induction sched arbitrary: st) (simp_all add: rejection_step)

subsection \<open>Tasks stay with their keys\<close>

lemma shape_spawn: "shape rt k (spawn rt k)"
  by (simp add: spawn_def Let_def)

lemma shaped_start: "list_all2 (shape rt) ks (tasks (start rt ks w))"
  by (simp add: start_def idle_def list_all2_conv_all_nth shape_spawn)

lemma shaped_update:
  "list_all2 (shape rt) ks ts \<Longrightarrow> i < length ts \<Longrightarrow> shape rt (ks ! i) t
     \<Longrightarrow> list_all2 (shape rt) ks (ts[i := t])"
  by (simp add: list_all2_conv_all_nth nth_list_update)

lemma shaped_nth:
  "list_all2 (shape rt) ks ts \<Longrightarrow> i < length ts \<Longrightarrow> shape rt (ks ! i) (ts ! i)"
  by (simp add: list_all2_conv_all_nth)

lemma shaped_step:
  assumes "list_all2 (shape rt) ks (tasks st)"
  shows "list_all2 (shape rt) ks (tasks (step rt options i st))"
proof (cases "i < length (tasks st)")
  case False
  with assms show ?thesis by (simp add: step_def)
next
  case True
  from shaped_nth [OF assms True] assms True show ?thesis
    by (cases "tasks st ! i")
       (auto simp: step_def reject_def intro!: shaped_update split: option.splits sum.splits)
qed

lemma shaped_run:
  "list_all2 (shape rt) ks (tasks st)
     \<Longrightarrow> list_all2 (shape rt) ks (tasks (run rt options sched st))"
  by (induction sched arbitrary: st) (simp_all add: shaped_step)

lemma unselected_task_Done:
  assumes "list_all2 (shape rt) ks ts" and "i < length ts" and "\<not> endsWith (ks ! i) ''.js''"
  shows "ts ! i = Done"
  using shaped_nth [OF assms(1,2)] assms(3) by (cases "ts ! i") simp_all

subsection \<open>Where logged effects come from\<close>

lemma provenance_step:
  assumes "list_all2 (shape rt) ks (tasks st)" and "list_all (by_task rt options ks) (io st)"
  shows "list_all (by_task rt options ks) (io (step rt options i st))"
proof (cases "i < length (tasks st)")
  case False
  with assms show ?thesis by (simp add: step_def)
next
  case True
  moreover from assms(1) have "length ks = length (tasks st)"
    by (rule list_all2_lengthD)
  ultimately have "ks ! i \<in> set ks" by simp
  with shaped_nth [OF assms(1) True] assms(2) True show ?thesis
    by (cases "tasks st ! i")
       (auto simp: step_def reject_def split: option.splits sum.splits)
qed

lemma provenance_run:
  "list_all2 (shape rt) ks (tasks st) \<Longrightarrow> list_all (by_task rt options ks) (io st)
     \<Longrightarrow> list_all (by_task rt options ks) (io (run rt options sched st))"
  by (induction sched arbitrary: st) (simp_all add: shaped_step provenance_step)

lemma provenance:
  assumes "e \<in> set (io (run rt options sched (start rt ks w)))"
  shows "by_task rt options ks e"
proof -
  have "list_all (by_task rt options ks) (io (run rt options sched (start rt ks w)))"
    by (rule provenance_run) (simp_all add: shaped_start, simp add: start_def idle_def)
  with assms show ?thesis
    by (simp add: list_all_iff)
qed

subsection \<open>Files of no selected key\<close>

lemma frame_step:
  assumes "list_all2 (shape rt) ks (tasks st)"
    and "\<forall>k\<in>set ks. endsWith k ''.js'' \<longrightarrow> resolve rt k \<noteq> p"
  shows "files (fs (step rt options i st)) p = files (fs st) p"
proof (cases "i < length (tasks st)")
  case False
  then show ?thesis by (simp add: step_def)
next
  case True
  moreover from assms(1) have "length ks = length (tasks st)"
    by (rule list_all2_lengthD)
  ultimately have "ks ! i \<in> set ks" by simp
  with shaped_nth [OF assms(1) True] assms(2) True show ?thesis
    by (cases "tasks st ! i")
       (auto simp: step_def reject_def split: option.splits sum.splits)
qed

lemma frame_run:
  "list_all2 (shape rt) ks (tasks st) \<Longrightarrow> \<forall>k\<in>set ks. endsWith k ''.js'' \<longrightarrow> resolve rt k \<noteq> p
     \<Longrightarrow> files (fs (run rt options sched st)) p = files (fs st) p"
  by (induction sched arbitrary: st) (simp_all add: shaped_step frame_step)

lemma frame:
  assumes "p \<notin> set (map (resolve rt) (selected ks))"
  shows "files (fs (run rt options sched (start rt ks w))) p = files w p"
proof -
  from assms have "\<forall>k\<in>set ks. endsWith k ''.js'' \<longrightarrow> resolve rt k \<noteq> p"
    by (auto simp: selected_def)
  with shaped_start have "files (fs (run rt options sched (start rt ks w))) p
      = files (fs (start rt ks w)) p"
    by (rule frame_run)
  then show ?thesis
    by (simp add: start_def idle_def)
qed

subsection \<open>The rejection of the joint promise\<close>

lemma rejection_ok_step:
  assumes "rejection_ok st"
  shows "rejection_ok (step rt options i st)"
proof (cases "i < length (tasks st)")
  case False
  with assms show ?thesis by (simp add: step_def)
next
  case True
  have keep: "Failed e \<in> set ((tasks st)[i := t])"
    if "Failed e \<in> set (tasks st)" and "\<forall>e. tasks st ! i \<noteq> Failed e" for e t
  proof -
    from that(1) obtain j where j: "j < length (tasks st)" "tasks st ! j = Failed e"
      by (auto simp: in_set_conv_nth)
    with that(2) have "j \<noteq> i" by auto
    with j have "(tasks st)[i := t] ! j = Failed e" by simp
    with j(1) show ?thesis by (metis length_list_update nth_mem)
  qed
  have new: "t \<in> set ((tasks st)[i := t])" for t
    using True by (simp add: set_update_memI)
  have none: "Failed e \<notin> set ((tasks st)[i := t])"
    if "\<forall>e. Failed e \<notin> set (tasks st)" and "\<forall>e. t \<noteq> Failed e" for e t
    using that set_update_subset_insert [of "tasks st" i t] by auto
  from assms True show ?thesis
    by (cases "tasks st ! i"; cases "rejection st")
       (auto simp: rejection_ok_def step_def reject_def keep new none
             split: option.splits sum.splits)
qed

lemma rejection_ok_run: "rejection_ok st \<Longrightarrow> rejection_ok (run rt options sched st)"
  by (induction sched arbitrary: st) (simp_all add: rejection_ok_step)

lemma rejection_ok_start: "rejection_ok (start rt ks w)"
  by (auto simp: rejection_ok_def start_def idle_def spawn_def Let_def)

lemma failed_task_rejects:
  assumes "rejection_ok st" and "i < length (tasks st)" and "tasks st ! i = Failed e"
  shows "\<exists>e'. outcome st = Rejected e' \<and> rejection st = Some e' \<and> Failed e' \<in> set (tasks st)"
proof (cases "rejection st")
  case None
  with assms(1) have "Failed e \<notin> set (tasks st)"
    by (simp add: rejection_ok_def)
  with assms(2,3) show ?thesis
    by (metis nth_mem)
next
  case (Some e')
  with assms(1) show ?thesis
    by (simp add: rejection_ok_def outcome_def)
qed

subsection \<open>One task among the others\<close>

lemma expected_stable: "2 \<le> n \<Longrightarrow> expected rt options w k n = expected rt options w k 2"
  by (auto simp: expected_def Let_def split: option.splits sum.splits)


lemma expected_Done:
  assumes "fst (expected rt options w k n) = Done"
  shows "2 \<le> n \<and> writable w (resolve rt k)
       \<and> (\<exists>code obfuscatedCode. files w (resolve rt k) = Some code
             \<and> obfuscate rt code options = Inr obfuscatedCode)"
  using assms
  by (auto simp: expected_def Let_def split: option.splits sum.splits if_splits)

lemma expected_success:
  assumes "files w (resolve rt k) = Some code" and "obfuscate rt code options = Inr obfuscatedCode"
    and "writable w (resolve rt k)" and "2 \<le> n"
  shows "expected rt options w k n =
           (Done,
            [(k, ReadFile (resolve rt k)), (k, Obfuscate code options),
             (k, WriteFile (resolve rt k) obfuscatedCode)],
            Some obfuscatedCode)"
  using assms by (simp add: expected_def Let_def)

lemma expected_failure:
  assumes "files w (resolve rt k) = None
         \<or> (\<exists>code msg. files w (resolve rt k) = Some code \<and> obfuscate rt code options = Inl msg)
         \<or> \<not> writable w (resolve rt k)"
    and "2 \<le> n"
  shows "\<exists>e. fst (expected rt options w k n) = Failed e"
  using assms by (auto simp: expected_def Let_def split: option.splits sum.splits)

lemma view_own_step:
  assumes "i < length (tasks st)" and "writable (fs st) = writable w"
    and "view st i k (resolve rt k) = expected rt options w k n"
  shows "view (step rt options i st) i k (resolve rt k) = expected rt options w k (Suc n)"
proof -
  consider "n = 0" | "n = 1" | "2 \<le> n" by linarith
  then show ?thesis
  proof cases
    case 1
    with assms show ?thesis
      by (auto simp: view_def expected_def step_def reject_def Let_def
               split: option.splits sum.splits)
  next
    case 2
    with assms show ?thesis
      by (auto simp: view_def expected_def step_def reject_def Let_def
               split: option.splits sum.splits if_splits)
  next
    case 3
    then have "expected rt options w k (Suc n) = expected rt options w k n"
      by (simp add: expected_stable [of n] expected_stable [of "Suc n"])
    moreover from 3 assms have "step rt options i st = st"
      by (auto simp: view_def expected_def step_def Let_def
               split: option.splits sum.splits if_splits)
    ultimately show ?thesis using assms(3) by simp
  qed
qed

lemma view_other_step:
  assumes sh: "list_all2 (shape rt) ks (tasks st)" and i: "i < length ks" and "j \<noteq> i"
    and al: "alone rt ks i"
  shows "view (step rt options j st) i (ks ! i) (resolve rt (ks ! i))
           = view st i (ks ! i) (resolve rt (ks ! i))"
proof (cases "j < length (tasks st)")
  case False
  then show ?thesis by (simp add: step_def)
next
  case True
  from sh have len: "length ks = length (tasks st)"
    by (rule list_all2_lengthD)
  have differ: "ks ! j \<noteq> ks ! i \<and> resolve rt (ks ! j) \<noteq> resolve rt (ks ! i)"
    if "endsWith (ks ! j) ''.js''"
    using that al True len \<open>j \<noteq> i\<close> by (auto simp: alone_def)
  from shaped_nth [OF sh True] differ \<open>j \<noteq> i\<close> show ?thesis
    by (cases "tasks st ! j")
       (auto simp: view_def step_def reject_def split: option.splits sum.splits)
qed

lemma view_run:
  assumes i: "i < length ks" and js: "endsWith (ks ! i) ''.js''" and al: "alone rt ks i"
  shows "view (run rt options sched (start rt ks w)) i (ks ! i) (resolve rt (ks ! i))
           = expected rt options w (ks ! i) (count_list sched i)"
proof (induction sched rule: rev_induct)
  case Nil
  from i js show ?case
    by (simp add: view_def expected_def start_def idle_def spawn_def Let_def)
next
  case (snoc j sched)
  let ?st = "run rt options sched (start rt ks w)"
  have sh: "list_all2 (shape rt) ks (tasks ?st)"
    by (rule shaped_run) (rule shaped_start)
  then have len: "length ks = length (tasks ?st)"
    by (rule list_all2_lengthD)
  have wr: "writable (fs ?st) = writable w"
    by (simp add: writable_run start_def idle_def)
  show ?case
  proof (cases "j = i")
    case True
    with snoc i len wr show ?thesis
      by (simp add: run_snoc view_own_step)
  next
    case False
    with snoc view_other_step [OF sh i False al] show ?thesis
      by (simp add: run_snoc)
  qed
qed

lemma distinct_filter_nth:
  "distinct (map f (filter P xs)) \<Longrightarrow> i < length xs \<Longrightarrow> j < length xs \<Longrightarrow> j \<noteq> i
     \<Longrightarrow> P (xs ! i) \<Longrightarrow> P (xs ! j) \<Longrightarrow> f (xs ! j) \<noteq> f (xs ! i)"
proof (induction xs arbitrary: i j)
  case Nil
  then show ?case by simp
next
  case (Cons x xs)
  show ?case
  proof (cases i)
    case 0
    with Cons.prems obtain j' where j': "j = Suc j'" "j' < length xs" "P (xs ! j')"
      by (cases j) auto
    then have "xs ! j' \<in> set (filter P xs)" by simp
    with Cons.prems 0 j' show ?thesis by (auto simp: image_iff)
  next
    case (Suc i')
    show ?thesis
    proof (cases j)
      case 0
      from Cons.prems Suc have "xs ! i' \<in> set (filter P xs)" by simp
      with Cons.prems Suc 0 show ?thesis by (auto simp: image_iff)
    next
      case (Suc j')
      with Cons.prems \<open>i = Suc i'\<close> have "f (xs ! j') \<noteq> f (xs ! i')"
        by (intro Cons.IH) (auto split: if_splits)
      with Suc \<open>i = Suc i'\<close> show ?thesis by simp
    qed
  qed
qed

lemma distinct_alone:
  assumes "distinct (map (resolve rt) (selected ks))" and "i < length ks"
    and "endsWith (ks ! i) ''.js''"
  shows "alone rt ks i"
  unfolding alone_def
proof (intro allI impI)
  fix j
  assume "j < length ks" "j \<noteq> i" "endsWith (ks ! j) ''.js''"
  with assms show "resolve rt (ks ! j) \<noteq> resolve rt (ks ! i)"
    unfolding selected_def
    by (intro distinct_filter_nth [where f = "resolve rt" and P = "\<lambda>k. endsWith k ''.js''"])
qed

lemma task_view:
  assumes "distinct (map (resolve rt) (selected ks))" and "i < length ks"
    and "endsWith (ks ! i) ''.js''"
  shows "view (run rt options sched (start rt ks w)) i (ks ! i) (resolve rt (ks ! i))
           = expected rt options w (ks ! i) (count_list sched i)"
  using assms by (intro view_run distinct_alone)

subsection \<open>Consequences for the callback\<close>

lemma onEnd_provenance:
  assumes "(k, e) \<in> set (io (onEnd rt options sched result w))"
  shows "endsWith k ''.js''
       \<and> (\<forall>p. e = ReadFile p \<longrightarrow> p = resolve rt k)
       \<and> (\<forall>c given. e = Obfuscate c given \<longrightarrow> given = options)
       \<and> (\<forall>p x. e = WriteFile p x \<longrightarrow> p = resolve rt k)"
proof (cases "errors result = []")
  case False
  with assms show ?thesis by (simp add: onEnd_errors idle_def)
next
  case True
  show ?thesis
  proof (cases "metafile result")
    case None
    with True assms show ?thesis by (simp add: onEnd_no_metafile idle_def)
  next
    case (Some m)
    with True assms have "by_task rt options (Object_keys (outputs m)) (k, e)"
      by (simp add: onEnd_metafile provenance)
    then show ?thesis by (cases e) simp_all
  qed
qed






lemma onEnd_view:
  assumes "errors result = []" and "metafile result = Some m"
    and "distinct (map (resolve rt) (selected (Object_keys (outputs m))))"
    and "i < length (Object_keys (outputs m))"
    and "endsWith (Object_keys (outputs m) ! i) ''.js''"
  shows "view (onEnd rt options sched result w) i (Object_keys (outputs m) ! i)
             (resolve rt (Object_keys (outputs m) ! i))
           = expected rt options w (Object_keys (outputs m) ! i) (count_list sched i)"
  using assms(3-5) by (simp add: onEnd_metafile [OF assms(1,2)] task_view)

lemma onEnd_task:
  assumes "errors result = []" and "metafile result = Some m"
    and "distinct (map (resolve rt) (selected (Object_keys (outputs m))))"
    and "i < length (Object_keys (outputs m))"
    and "endsWith (Object_keys (outputs m) ! i) ''.js''"
  shows "tasks (onEnd rt options sched result w) ! i
           = fst (expected rt options w (Object_keys (outputs m) ! i) (count_list sched i))"
    and "filter (\<lambda>e. fst e = Object_keys (outputs m) ! i) (io (onEnd rt options sched result w))
           = fst (snd (expected rt options w (Object_keys (outputs m) ! i) (count_list sched i)))"
    and "files (fs (onEnd rt options sched result w)) (resolve rt (Object_keys (outputs m) ! i))
           = snd (snd (expected rt options w (Object_keys (outputs m) ! i) (count_list sched i)))"
  unfolding onEnd_view [OF assms, of options sched w, symmetric]
  by (simp_all add: view_def)


subsection \<open>An empty file\<close>

lemma empty_at_step:
  assumes "empty_at p st" and "obfuscate rt [] options = Inr []"
  shows "empty_at p (step rt options i st)"
proof (cases "i < length (tasks st)")
  case False
  with assms show ?thesis by (simp add: step_def)
next
  case True
  have old: "t \<in> set (tasks st) \<or> t = t'" if "t \<in> set ((tasks st)[i := t'])" for t t'
    using that set_update_subset_insert [of "tasks st" i t'] by auto
  show ?thesis
  proof (cases "tasks st ! i")
    case (Reading k q)
    with assms True show ?thesis
      by (cases "q = p")
         (auto simp: empty_at_def step_def reject_def split: option.splits sum.splits dest!: old)
  next
    case (Writing k q x)
    from True have "tasks st ! i \<in> set (tasks st)" by simp
    with Writing assms(1) have "q = p \<Longrightarrow> x = []"
      by (auto simp: empty_at_def)
    with Writing assms True show ?thesis
      by (auto simp: empty_at_def step_def reject_def dest!: old)
  next
    case Done
    with assms True show ?thesis by (simp add: step_def)
  next
    case (Failed e)
    with assms True show ?thesis by (simp add: step_def)
  qed
qed

lemma empty_at_run:
  "empty_at p st \<Longrightarrow> obfuscate rt [] options = Inr []
     \<Longrightarrow> empty_at p (run rt options sched st)"
  by (induction sched arbitrary: st) (simp_all add: empty_at_step)

lemma empty_at_start: "files w p = Some [] \<Longrightarrow> empty_at p (start rt ks w)"
  by (auto simp: empty_at_def start_def idle_def spawn_def Let_def)

subsection \<open>When every task has finished\<close>


lemma length_tasks_run:
  "length (tasks (run rt options sched (start rt ks w))) = length ks"
proof -
  have "list_all2 (shape rt) ks (tasks (run rt options sched (start rt ks w)))"
    by (rule shaped_run) (rule shaped_start)
  then show ?thesis by (simp add: list_all2_lengthD)
qed







subsection \<open>The model run on the small build\<close>

text \<open>
  A script and a stylesheet, after the package's test that a stylesheet is left alone: with
  both operations of the script's task completed the script is rewritten, the stylesheet
  is not, and the callback's promise is fulfilled.
\<close>

lemma test_script_and_stylesheet:
  "files (fs (onEnd test_runtime test_options [0, 0]
       (test_result\<lparr>metafile := Some \<lparr>outputs = [(''script.js'', ()), (''style.css'', ())]\<rparr>\<rparr>)
       test_files)) ''/tmp/script.js'' = Some ''var _0x;test();''
   \<and> files (fs (onEnd test_runtime test_options [0, 0]
       (test_result\<lparr>metafile := Some \<lparr>outputs = [(''script.js'', ()), (''style.css'', ())]\<rparr>\<rparr>)
       test_files)) ''/tmp/style.css'' = Some ''body {}''
   \<and> outcome (onEnd test_runtime test_options [0, 0]
       (test_result\<lparr>metafile := Some \<lparr>outputs = [(''script.js'', ()), (''style.css'', ())]\<rparr>\<rparr>)
       test_files) = Fulfilled"
proof -
  let ?r = "test_result\<lparr>metafile := Some \<lparr>outputs = [(''script.js'', ()), (''style.css'', ())]\<rparr>\<rparr>"
  let ?s0 = "\<lparr>fs = test_files, console = [], io = [],
               tasks = [Reading ''script.js'' ''/tmp/script.js'', Done], rejection = None\<rparr>
             :: bool hook_state"
  let ?s1 = "\<lparr>fs = test_files, console = [],
               io = [(''script.js'', ReadFile ''/tmp/script.js''),
                     (''script.js'', Obfuscate ''test();'' test_options)],
               tasks = [Writing ''script.js'' ''/tmp/script.js'' ''var _0x;test();'', Done],
               rejection = None\<rparr> :: bool hook_state"
  let ?s2 = "\<lparr>fs = test_files\<lparr>files := (files test_files)(''/tmp/script.js'' \<mapsto> ''var _0x;test();'')\<rparr>,
               console = [],
               io = [(''script.js'', ReadFile ''/tmp/script.js''),
                     (''script.js'', Obfuscate ''test();'' test_options),
                     (''script.js'', WriteFile ''/tmp/script.js'' ''var _0x;test();'')],
               tasks = [Done, Done], rejection = None\<rparr> :: bool hook_state"
  have rd: "files test_files ''/tmp/script.js'' = Some ''test();''"
    and css: "files test_files ''/tmp/style.css'' = Some ''body {}''"
    and wr: "writable test_files ''/tmp/script.js''"
    by (simp_all add: test_files_def)
  have ob: "obfuscate test_runtime ''test();'' test_options = Inr ''var _0x;test();''"
    by (simp add: test_runtime_def)
  have "onEnd test_runtime test_options [0, 0] ?r test_files
      = step test_runtime test_options 0 (step test_runtime test_options 0 ?s0)"
    by (simp add: onEnd_def Object_keys_def spawn_def endsWith_def idle_def test_runtime_def
          test_result_def)
  also have "step test_runtime test_options 0 ?s0 = ?s1"
    by (simp add: step_def rd ob)
  also have "step test_runtime test_options 0 ?s1 = ?s2"
    by (simp add: step_def wr)
  finally show ?thesis
    by (simp add: css outcome_def all_done_def)
qed

subsection \<open>The callback the factory registers\<close>



subsection \<open>The first operation of a task\<close>

lemma other_task_step: "j \<noteq> i \<Longrightarrow> tasks (step rt options j st) ! i = tasks st ! i"
  by (simp add: step_def reject_def split: task.splits option.splits sum.splits)

lemma io_step_mono: "e \<in> set (io st) \<Longrightarrow> e \<in> set (io (step rt options j st))"
  by (auto simp: step_def reject_def split: task.splits option.splits sum.splits)

lemma io_run_mono: "e \<in> set (io st) \<Longrightarrow> e \<in> set (io (run rt options sched st))"
  by (induction sched arbitrary: st) (simp_all add: io_step_mono)

lemma read_logged_step:
  assumes "i < length (tasks st)" and "tasks st ! i = Reading k p"
  shows "(k, ReadFile p) \<in> set (io (step rt options i st))"
  using assms by (auto simp: step_def reject_def split: option.splits sum.splits)

lemma read_logged_run:
  assumes "i < length (tasks st)" and "tasks st ! i = Reading k p" and "i \<in> set sched"
  shows "(k, ReadFile p) \<in> set (io (run rt options sched st))"
  using assms
proof (induction sched arbitrary: st)
  case Nil
  then show ?case by simp
next
  case (Cons j sched)
  show ?case
  proof (cases "j = i")
    case True
    with Cons.prems have "(k, ReadFile p) \<in> set (io (step rt options j st))"
      by (simp add: read_logged_step)
    then show ?thesis by (simp add: io_run_mono)
  next
    case False
    have "length (tasks (step rt options j st)) = length (tasks st)"
      by (simp add: step_def reject_def split: task.splits option.splits sum.splits)
    with Cons.prems False have "(k, ReadFile p) \<in> set (io (run rt options sched (step rt options j st)))"
      by (intro Cons.IH) (simp_all add: other_task_step)
    then show ?thesis by simp
  qed
qed

lemma onEnd_spawned:
  assumes "errors result = []" and "metafile result = Some m"
    and "i < length (Object_keys (outputs m))"
  shows "tasks (onEnd rt options [] result w) ! i = spawn rt (Object_keys (outputs m) ! i)"
  using assms by (simp add: onEnd_metafile start_def idle_def)

lemma onEnd_read_logged:
  assumes "errors result = []" and "metafile result = Some m"
    and "i < length (Object_keys (outputs m))"
    and "endsWith (Object_keys (outputs m) ! i) ''.js''"
    and "i \<in> set sched"
  shows "(Object_keys (outputs m) ! i, ReadFile (resolve rt (Object_keys (outputs m) ! i)))
           \<in> set (io (onEnd rt options sched result w))"
  unfolding onEnd_metafile [OF assms(1,2)]
  using assms(3-5)
  by (intro read_logged_run) (simp_all add: start_def idle_def spawn_def)

lemma onEnd_unselected_Done:
  assumes "errors result = []" and "metafile result = Some m"
    and "i < length (Object_keys (outputs m))"
    and "\<not> endsWith (Object_keys (outputs m) ! i) ''.js''"
  shows "tasks (onEnd rt options sched result w) ! i = Done"
proof -
  let ?ks = "Object_keys (outputs m)"
  have "list_all2 (shape rt) ?ks (tasks (run rt options sched (start rt ?ks w)))"
    by (rule shaped_run) (rule shaped_start)
  moreover have "i < length (tasks (run rt options sched (start rt ?ks w)))"
    using assms(3) by (simp add: length_tasks_run)
  ultimately have "tasks (run rt options sched (start rt ?ks w)) ! i = Done"
    using assms(4) by (rule unselected_task_Done)
  then show ?thesis
    by (simp add: onEnd_metafile [OF assms(1,2)])
qed

subsection \<open>Two runs to the end\<close>


section \<open>The claims\<close>

text \<open>
  C3. A build outcome whose error sequence is not empty: the callback does nothing and
  returns successfully. The filesystem is the one it was given, no file operation and no
  call of the obfuscator is logged, no task was started, nothing is written to the
  console, and the promise is fulfilled. Nothing is assumed about the manifest, so this
  holds when it is absent too.
\<close>

theorem failed_build_is_skipped:
  assumes "errors result \<noteq> []"
  shows "fs (onEnd rt options sched result w) = w
       \<and> io (onEnd rt options sched result w) = []
       \<and> tasks (onEnd rt options sched result w) = []
       \<and> console (onEnd rt options sched result w) = []
       \<and> outcome (onEnd rt options sched result w) = Fulfilled"
  using assms by (simp add: onEnd_errors idle_def outcome_def all_done_def)

theorem failed_build_is_skipped_witness:
  "errors (test_result\<lparr>errors := [''Unexpected end of file''], metafile := None\<rparr>) \<noteq> []
   \<and> fs (onEnd test_runtime test_options [0, 1, 2]
           (test_result\<lparr>errors := [''Unexpected end of file''], metafile := None\<rparr>) test_files)
       = test_files
   \<and> io (onEnd test_runtime test_options [0, 1, 2]
           (test_result\<lparr>errors := [''Unexpected end of file''], metafile := None\<rparr>) test_files)
       = []
   \<and> console (onEnd test_runtime test_options [0, 1, 2]
           (test_result\<lparr>errors := [''Unexpected end of file''], metafile := None\<rparr>) test_files)
       = []
   \<and> outcome (onEnd test_runtime test_options [0, 1, 2]
           (test_result\<lparr>errors := [''Unexpected end of file''], metafile := None\<rparr>) test_files)
       = Fulfilled"
  using failed_build_is_skipped
    [of "test_result\<lparr>errors := [''Unexpected end of file''], metafile := None\<rparr>"
        test_runtime test_options "[0, 1, 2]" test_files]
  by simp

text \<open>
  C2. A build outcome with no errors and no manifest: the console receives exactly the one
  message, no file operation and no call of the obfuscator is logged, no task was started,
  the filesystem is the one the callback was given, and the promise is fulfilled.
\<close>

theorem missing_metafile_is_reported:
  assumes "errors result = []" and "metafile result = None"
  shows "console (onEnd rt options sched result w)
           = [''Metafile is required for the obfuscator plugin to work.'']
       \<and> io (onEnd rt options sched result w) = []
       \<and> tasks (onEnd rt options sched result w) = []
       \<and> fs (onEnd rt options sched result w) = w
       \<and> outcome (onEnd rt options sched result w) = Fulfilled"
  using assms by (simp add: onEnd_no_metafile idle_def outcome_def all_done_def)

theorem missing_metafile_is_reported_witness:
  "errors (test_result\<lparr>metafile := None\<rparr>) = []
   \<and> metafile (test_result\<lparr>metafile := None\<rparr>) = None
   \<and> console (onEnd test_runtime test_options [0] (test_result\<lparr>metafile := None\<rparr>) test_files)
       = [''Metafile is required for the obfuscator plugin to work.'']
   \<and> io (onEnd test_runtime test_options [0] (test_result\<lparr>metafile := None\<rparr>) test_files) = []
   \<and> fs (onEnd test_runtime test_options [0] (test_result\<lparr>metafile := None\<rparr>) test_files)
       = test_files
   \<and> outcome (onEnd test_runtime test_options [0] (test_result\<lparr>metafile := None\<rparr>) test_files)
       = Fulfilled"
  using missing_metafile_is_reported
    [of "test_result\<lparr>metafile := None\<rparr>" test_runtime test_options "[0]" test_files]
  by (simp add: test_result_def)

text \<open>
  C1. A build outcome with no errors and a manifest, and a key of the manifest's outputs
  that ends with \<^verbatim>\<open>.js\<close>: once the two operations of the key's task have completed, the
  task has read the file at the resolved path, called the obfuscator with the content read
  and the options object, and written the returned text to the same path, in this order
  and nothing else; the file holds the returned text and the task is done. The content
  read is the content the file had when the callback started. This is for a task whose
  operations succeed (the file exists, the obfuscator returns, the path can be written)
  and for selected keys that resolve to pairwise different paths; the other tasks may
  fail, and the operations may complete in any order.
\<close>

theorem selected_file_is_transformed:
  assumes "errors result = []" and "metafile result = Some m"
    and "i < length (Object_keys (outputs m))"
    and "outputFile = Object_keys (outputs m) ! i"
    and "endsWith outputFile ''.js''"
    and "distinct (map (resolve rt) (selected (Object_keys (outputs m))))"
    and "files w (resolve rt outputFile) = Some code"
    and "obfuscate rt code options = Inr obfuscatedCode"
    and "writable w (resolve rt outputFile)"
    and "2 \<le> count_list sched i"
  shows "filter (\<lambda>e. fst e = outputFile) (io (onEnd rt options sched result w))
           = [(outputFile, ReadFile (resolve rt outputFile)),
              (outputFile, Obfuscate code options),
              (outputFile, WriteFile (resolve rt outputFile) obfuscatedCode)]
       \<and> files (fs (onEnd rt options sched result w)) (resolve rt outputFile)
           = Some obfuscatedCode
       \<and> tasks (onEnd rt options sched result w) ! i = Done"
proof -
  let ?ks = "Object_keys (outputs m)"
  let ?st = "run rt options sched (start rt ?ks w)"
  have "view ?st i (?ks ! i) (resolve rt (?ks ! i))
          = expected rt options w (?ks ! i) (count_list sched i)"
    using assms(6,3) assms(5) [unfolded assms(4)] by (rule task_view)
  also have "\<dots> = (Done,
      [(outputFile, ReadFile (resolve rt outputFile)), (outputFile, Obfuscate code options),
       (outputFile, WriteFile (resolve rt outputFile) obfuscatedCode)],
      Some obfuscatedCode)"
    using assms(7-10) by (simp add: assms(4) expected_success)
  finally show ?thesis
    by (simp add: onEnd_metafile [OF assms(1,2)] view_def assms(4))
qed

theorem selected_file_is_transformed_witness:
  "errors test_result = [] \<and> metafile test_result = Some \<lparr>outputs = test_outputs\<rparr>
   \<and> endsWith ''script.js'' ''.js''
   \<and> distinct (map (resolve test_runtime) (selected (Object_keys test_outputs)))
   \<and> files test_files ''/tmp/script.js'' = Some ''test();''
   \<and> obfuscate test_runtime ''test();'' test_options = Inr ''var _0x;test();''
   \<and> filter (\<lambda>e. fst e = ''script.js'')
        (io (onEnd test_runtime test_options [0, 2, 2, 0] test_result test_files))
       = [(''script.js'', ReadFile ''/tmp/script.js''),
          (''script.js'', Obfuscate ''test();'' test_options),
          (''script.js'', WriteFile ''/tmp/script.js'' ''var _0x;test();'')]
   \<and> files (fs (onEnd test_runtime test_options [0, 2, 2, 0] test_result test_files))
        ''/tmp/script.js'' = Some ''var _0x;test();''
   \<and> tasks (onEnd test_runtime test_options [0, 2, 2, 0] test_result test_files) ! 0 = Done"
proof -
  have h1: "errors test_result = []"
    and h2: "metafile test_result = Some \<lparr>outputs = test_outputs\<rparr>"
    by (simp_all add: test_result_def)
  have h3: "0 < length (Object_keys (outputs \<lparr>outputs = test_outputs\<rparr>))"
    and h4: "''script.js'' = Object_keys (outputs \<lparr>outputs = test_outputs\<rparr>) ! 0"
    by (simp_all add: Object_keys_def test_outputs_def)
  have h5: "endsWith ''script.js'' ''.js''"
    by (simp add: endsWith_def)
  have h6: "distinct (map (resolve test_runtime)
      (selected (Object_keys (outputs \<lparr>outputs = test_outputs\<rparr>))))"
    by (simp add: selected_def Object_keys_def test_outputs_def test_runtime_def endsWith_def)
  have h7: "files test_files (resolve test_runtime ''script.js'') = Some ''test();''"
    by (simp add: test_files_def test_runtime_def)
  have h8: "obfuscate test_runtime ''test();'' test_options = Inr ''var _0x;test();''"
    by (simp add: test_runtime_def)
  have h9: "writable test_files (resolve test_runtime ''script.js'')"
    by (simp add: test_files_def test_runtime_def)
  have h10: "2 \<le> count_list [0, 2, 2, 0] (0::nat)"
    by simp
  have r: "resolve test_runtime ''script.js'' = ''/tmp/script.js''"
    by (simp add: test_runtime_def)
  from selected_file_is_transformed [OF h1 h2 h3 h4 h5 h6 h7 h8 h9 h10] h1 h2 h5 h6 h7 h8
  show ?thesis
    by (simp add: r)
qed

text \<open>
  C4. A build outcome with no errors and a manifest, and a key of the manifest's outputs
  that does not end with \<^verbatim>\<open>.js\<close>: the key's task logs no effect at all, in any order of
  completion. When no selected key resolves to the same path as this key, no task reads
  or writes the resolved path, none has a read or a write of it pending, and the file's
  content is the one it had when the callback started, whatever happened to the others.
\<close>

theorem unselected_file_is_untouched:
  assumes "errors result = []" and "metafile result = Some m"
    and "outputFile \<in> set (Object_keys (outputs m))"
    and "\<not> endsWith outputFile ''.js''"
  shows "(\<forall>e. (outputFile, e) \<notin> set (io (onEnd rt options sched result w)))
       \<and> (resolve rt outputFile \<notin> set (map (resolve rt) (selected (Object_keys (outputs m))))
            \<longrightarrow> (\<forall>k x. (k, ReadFile (resolve rt outputFile))
                         \<notin> set (io (onEnd rt options sched result w))
                     \<and> (k, WriteFile (resolve rt outputFile) x)
                         \<notin> set (io (onEnd rt options sched result w))
                     \<and> Reading k (resolve rt outputFile)
                         \<notin> set (tasks (onEnd rt options sched result w))
                     \<and> Writing k (resolve rt outputFile) x
                         \<notin> set (tasks (onEnd rt options sched result w)))
              \<and> files (fs (onEnd rt options sched result w)) (resolve rt outputFile)
                  = files w (resolve rt outputFile))"
proof (intro conjI allI impI)
  fix e
  show "(outputFile, e) \<notin> set (io (onEnd rt options sched result w))"
    using assms(4) onEnd_provenance by blast
next
  let ?ks = "Object_keys (outputs m)"
  let ?p = "resolve rt outputFile"
  let ?st = "run rt options sched (start rt ?ks w)"
  assume fresh: "?p \<notin> set (map (resolve rt) (selected ?ks))"
  have st: "onEnd rt options sched result w = ?st"
    using assms(1,2) by (rule onEnd_metafile)
  have sh: "list_all2 (shape rt) ?ks (tasks ?st)"
    by (rule shaped_run) (rule shaped_start)
  have sel: "resolve rt k \<in> set (map (resolve rt) (selected ?ks))"
    if "k \<in> set ?ks" and "endsWith k ''.js''" for k
    using that by (simp add: selected_def)
  have pending: "p = resolve rt k \<and> k \<in> set ?ks \<and> endsWith k ''.js''"
    if "t \<in> set (tasks ?st)" and "t = Reading k p \<or> t = Writing k p x" for t k p x
  proof -
    from that(1) obtain j where j: "j < length (tasks ?st)" "tasks ?st ! j = t"
      by (auto simp: in_set_conv_nth)
    from sh have "length ?ks = length (tasks ?st)"
      by (rule list_all2_lengthD)
    with j have "?ks ! j \<in> set ?ks" by simp
    with shaped_nth [OF sh j(1)] j(2) that(2) show ?thesis by auto
  qed
  fix k x
  show "(k, ReadFile ?p) \<notin> set (io (onEnd rt options sched result w))"
  proof
    assume "(k, ReadFile ?p) \<in> set (io (onEnd rt options sched result w))"
    then have "by_task rt options ?ks (k, ReadFile ?p)"
      unfolding st by (rule provenance)
    with sel fresh show False by auto
  qed
  show "(k, WriteFile ?p x) \<notin> set (io (onEnd rt options sched result w))"
  proof
    assume "(k, WriteFile ?p x) \<in> set (io (onEnd rt options sched result w))"
    then have "by_task rt options ?ks (k, WriteFile ?p x)"
      unfolding st by (rule provenance)
    with sel fresh show False by auto
  qed
  show "Reading k ?p \<notin> set (tasks (onEnd rt options sched result w))"
    using pending [of "Reading k ?p" k ?p] sel fresh by (auto simp: st)
  show "Writing k ?p x \<notin> set (tasks (onEnd rt options sched result w))"
    using pending [of "Writing k ?p x" k ?p x] sel fresh by (auto simp: st)
  show "files (fs (onEnd rt options sched result w)) ?p = files w ?p"
    using fresh by (simp add: st frame)
qed

theorem unselected_file_is_untouched_witness:
  "errors test_result = [] \<and> metafile test_result = Some \<lparr>outputs = test_outputs\<rparr>
   \<and> ''style.css'' \<in> set (Object_keys test_outputs)
   \<and> \<not> endsWith ''style.css'' ''.js''
   \<and> ''/tmp/style.css'' \<notin> set (map (resolve test_runtime) (selected (Object_keys test_outputs)))
   \<and> (\<forall>e. (''style.css'', e)
          \<notin> set (io (onEnd test_runtime test_options [0, 1, 2, 1, 0, 2] test_result test_files)))
   \<and> files (fs (onEnd test_runtime test_options [0, 1, 2, 1, 0, 2] test_result test_files))
        ''/tmp/style.css'' = Some ''body {}''
   \<and> files (fs (onEnd test_runtime test_options [0, 1, 2, 1, 0, 2] test_result test_files))
        ''/tmp/script.js'' = Some ''var _0x;test();''"
proof -
  have h1: "errors test_result = []"
    and h2: "metafile test_result = Some \<lparr>outputs = test_outputs\<rparr>"
    by (simp_all add: test_result_def)
  have h3: "''style.css'' \<in> set (Object_keys (outputs \<lparr>outputs = test_outputs\<rparr>))"
    by (simp add: Object_keys_def test_outputs_def)
  have h4: "\<not> endsWith ''style.css'' ''.js''"
    by (simp add: endsWith_def)
  have r: "resolve test_runtime ''style.css'' = ''/tmp/style.css''"
    by (simp add: test_runtime_def)
  have h5: "''/tmp/style.css''
      \<notin> set (map (resolve test_runtime) (selected (Object_keys test_outputs)))"
    by (simp add: selected_def Object_keys_def test_outputs_def test_runtime_def endsWith_def)
  have before: "files test_files ''/tmp/style.css'' = Some ''body {}''"
    by (simp add: test_files_def)
  have "view (onEnd test_runtime test_options [0, 1, 2, 1, 0, 2] test_result test_files)
          0 (Object_keys test_outputs ! 0) (resolve test_runtime (Object_keys test_outputs ! 0))
      = expected test_runtime test_options test_files (Object_keys test_outputs ! 0)
          (count_list [0, 1, 2, 1, 0, 2] (0::nat))"
    using onEnd_view [OF h1 h2, of test_runtime 0 test_options "[0, 1, 2, 1, 0, 2]" test_files]
    by (simp add: selected_def Object_keys_def test_outputs_def test_runtime_def endsWith_def)
  then have script:
    "files (fs (onEnd test_runtime test_options [0, 1, 2, 1, 0, 2] test_result test_files))
       ''/tmp/script.js'' = Some ''var _0x;test();''"
    by (simp add: view_def expected_def Let_def Object_keys_def
          test_outputs_def test_runtime_def test_files_def)
  from unselected_file_is_untouched
         [OF h1 h2 h3 h4, of test_runtime test_options "[0, 1, 2, 1, 0, 2]" test_files]
       h1 h2 h3 h4 h5 before script
  show ?thesis
    by (simp add: r)
qed





text \<open>
  C10. The test that selects a key is \<^verbatim>\<open>endsWith('.js')\<close> on the whole key, literally and
  with case: it holds exactly when the key has at least three characters and its last
  three are \<^verbatim>\<open>.js\<close>. For a build outcome with no errors and a manifest, the callback
  starts for a key that passes the test the read of the key's resolved path, and the read
  is logged once the task has had a turn; for a key that fails the test the task is done
  from the start and stays so. A key ending in \<^verbatim>\<open>.mjs\<close>, \<^verbatim>\<open>.cjs\<close>, \<^verbatim>\<open>.JS\<close>,
  \<^verbatim>\<open>.ts\<close> or \<^verbatim>\<open>.json\<close> fails the test, and for any build outcome and any order of
  completion no read, no call of the obfuscator and no write is logged for it.
\<close>

theorem selection_is_the_js_suffix:
  "(endsWith p ''.js'' \<longleftrightarrow> 3 \<le> length p \<and> drop (length p - 3) p = ''.js'')
   \<and> (endsWith p ''.mjs'' \<or> endsWith p ''.cjs'' \<or> endsWith p ''.JS''
         \<or> endsWith p ''.ts'' \<or> endsWith p ''.json''
       \<longrightarrow> \<not> endsWith p ''.js''
           \<and> (\<forall>e. (p, e) \<notin> set (io (onEnd rt options sched result w))))
   \<and> (errors result = [] \<and> metafile result = Some m
        \<and> i < length (Object_keys (outputs m)) \<and> Object_keys (outputs m) ! i = p
       \<longrightarrow> (if endsWith p ''.js''
            then tasks (onEnd rt options [] result w) ! i = Reading p (resolve rt p)
               \<and> (i \<in> set sched
                    \<longrightarrow> (p, ReadFile (resolve rt p))
                          \<in> set (io (onEnd rt options sched result w)))
            else tasks (onEnd rt options sched result w) ! i = Done
               \<and> (\<forall>e. (p, e) \<notin> set (io (onEnd rt options sched result w)))))"
proof (intro conjI impI allI)
  show "endsWith p ''.js'' \<longleftrightarrow> 3 \<le> length p \<and> drop (length p - 3) p = ''.js''"
    by (rule endsWith_js_last3)
next
  assume "endsWith p ''.mjs'' \<or> endsWith p ''.cjs'' \<or> endsWith p ''.JS''
         \<or> endsWith p ''.ts'' \<or> endsWith p ''.json''"
  then have no: "\<not> endsWith p ''.js''"
    by (rule not_js_of_other_suffix)
  then show "\<not> endsWith p ''.js''" .
  fix e
  from no show "(p, e) \<notin> set (io (onEnd rt options sched result w))"
    using onEnd_provenance by blast
next
  assume "errors result = [] \<and> metafile result = Some m
        \<and> i < length (Object_keys (outputs m)) \<and> Object_keys (outputs m) ! i = p"
  then have e: "errors result = []" and m: "metafile result = Some m"
    and i: "i < length (Object_keys (outputs m))" and p: "Object_keys (outputs m) ! i = p"
    by simp_all
  show "if endsWith p ''.js''
        then tasks (onEnd rt options [] result w) ! i = Reading p (resolve rt p)
           \<and> (i \<in> set sched
                \<longrightarrow> (p, ReadFile (resolve rt p)) \<in> set (io (onEnd rt options sched result w)))
        else tasks (onEnd rt options sched result w) ! i = Done
           \<and> (\<forall>e. (p, e) \<notin> set (io (onEnd rt options sched result w)))"
  proof (cases "endsWith p ''.js''")
    case True
    have "tasks (onEnd rt options [] result w) ! i = spawn rt p"
      using onEnd_spawned [OF e m i] by (simp add: p)
    with True have "tasks (onEnd rt options [] result w) ! i = Reading p (resolve rt p)"
      by (simp add: spawn_def)
    moreover have "(p, ReadFile (resolve rt p)) \<in> set (io (onEnd rt options sched result w))"
      if "i \<in> set sched"
      using onEnd_read_logged [OF e m i _ that] True by (simp add: p)
    ultimately show ?thesis using True by simp
  next
    case False
    then have "tasks (onEnd rt options sched result w) ! i = Done"
      using onEnd_unselected_Done [OF e m i] by (simp add: p)
    moreover from False have "(p, e) \<notin> set (io (onEnd rt options sched result w))" for e
      using onEnd_provenance by blast
    ultimately show ?thesis using False by simp
  qed
qed

theorem selection_is_the_js_suffix_witness:
  "errors test_module_result = []
   \<and> metafile test_module_result
       = Some \<lparr>outputs = [(''dist/chunk.mjs'', ()), (''out.js'', ())]\<rparr>
   \<and> endsWith ''dist/chunk.mjs'' ''.mjs'' \<and> \<not> endsWith ''dist/chunk.mjs'' ''.js''
   \<and> tasks (onEnd test_runtime test_options [1, 0] test_module_result test_files) ! 0 = Done
   \<and> (\<forall>e. (''dist/chunk.mjs'', e)
          \<notin> set (io (onEnd test_runtime test_options [1, 0] test_module_result test_files)))
   \<and> endsWith ''out.js'' ''.js''
   \<and> tasks (onEnd test_runtime test_options [] test_module_result test_files) ! 1
       = Reading ''out.js'' ''/tmp/out.js''
   \<and> (''out.js'', ReadFile ''/tmp/out.js'')
        \<in> set (io (onEnd test_runtime test_options [1, 0] test_module_result test_files))"
proof -
  let ?m = "\<lparr>outputs = [(''dist/chunk.mjs'', ()), (''out.js'', ())]\<rparr> :: unit Metafile"
  have h1: "errors test_module_result = []"
    and h2: "metafile test_module_result = Some ?m"
    by (simp_all add: test_module_result_def)
  have s1: "endsWith ''dist/chunk.mjs'' ''.mjs''" and s2: "endsWith ''out.js'' ''.js''"
    and s3: "\<not> endsWith ''dist/chunk.mjs'' ''.js''"
    by (simp_all add: endsWith_def)
  have k0: "0 < length (Object_keys (outputs ?m))"
    "Object_keys (outputs ?m) ! 0 = ''dist/chunk.mjs''"
    and k1: "1 < length (Object_keys (outputs ?m))"
    "Object_keys (outputs ?m) ! 1 = ''out.js''"
    by (simp_all add: Object_keys_def)
  have r: "resolve test_runtime ''out.js'' = ''/tmp/out.js''"
    by (simp add: test_runtime_def)
  have turn: "(1::nat) \<in> set [1, 0]" by simp
  from selection_is_the_js_suffix
         [of "''dist/chunk.mjs''" test_runtime test_options "[1, 0]" test_module_result
             test_files ?m 0]
       h1 h2 k0 s1 s3
  have a: "tasks (onEnd test_runtime test_options [1, 0] test_module_result test_files) ! 0 = Done"
    and b: "\<forall>e. (''dist/chunk.mjs'', e)
          \<notin> set (io (onEnd test_runtime test_options [1, 0] test_module_result test_files))"
    by simp_all
  from selection_is_the_js_suffix
         [of "''out.js''" test_runtime test_options "[1, 0]" test_module_result
             test_files ?m 1]
       h1 h2 k1 s2 turn
  have c: "tasks (onEnd test_runtime test_options [] test_module_result test_files) ! 1
       = Reading ''out.js'' ''/tmp/out.js''"
    and d: "(''out.js'', ReadFile ''/tmp/out.js'')
        \<in> set (io (onEnd test_runtime test_options [1, 0] test_module_result test_files))"
    by (simp_all add: r)
  from h1 h2 s1 s2 s3 a b c d show ?thesis by simp
qed

text \<open>
  C7. A build outcome with no errors and a manifest, a key ending with \<^verbatim>\<open>.js\<close> whose file
  is empty, and an obfuscator that returns the empty text for the empty text, as the spec
  says of it: at every moment of the callback's run, and so after it, the file is empty.
  Nothing is assumed about the other keys, about where they resolve to, or about the order
  in which the operations complete.
\<close>

theorem empty_file_stays_empty:
  assumes "errors result = []" and "metafile result = Some m"
    and "outputFile \<in> set (Object_keys (outputs m))"
    and "endsWith outputFile ''.js''"
    and "files w (resolve rt outputFile) = Some []"
    and "empty_yields_empty rt options"
  shows "files (fs (onEnd rt options sched result w)) (resolve rt outputFile) = Some []"
proof -
  have "empty_at (resolve rt outputFile) (start rt (Object_keys (outputs m)) w)"
    using assms(5) by (rule empty_at_start)
  then have "empty_at (resolve rt outputFile)
      (run rt options sched (start rt (Object_keys (outputs m)) w))"
    using assms(6) [unfolded empty_yields_empty_def] by (rule empty_at_run)
  then show ?thesis
    by (simp add: onEnd_metafile [OF assms(1,2)] empty_at_def)
qed

theorem empty_file_stays_empty_witness:
  "errors test_result = [] \<and> metafile test_result = Some \<lparr>outputs = test_outputs\<rparr>
   \<and> ''empty.js'' \<in> set (Object_keys test_outputs)
   \<and> endsWith ''empty.js'' ''.js''
   \<and> files test_files ''/tmp/empty.js'' = Some []
   \<and> empty_yields_empty test_runtime test_options
   \<and> files (fs (onEnd test_runtime test_options [2, 0, 2, 0] test_result test_files))
        ''/tmp/empty.js'' = Some []"
proof -
  have h1: "errors test_result = []"
    and h2: "metafile test_result = Some \<lparr>outputs = test_outputs\<rparr>"
    by (simp_all add: test_result_def)
  have h3: "''empty.js'' \<in> set (Object_keys (outputs \<lparr>outputs = test_outputs\<rparr>))"
    by (simp add: Object_keys_def test_outputs_def)
  have h4: "endsWith ''empty.js'' ''.js''"
    by (simp add: endsWith_def)
  have r: "resolve test_runtime ''empty.js'' = ''/tmp/empty.js''"
    by (simp add: test_runtime_def)
  have h5: "files test_files (resolve test_runtime ''empty.js'') = Some []"
    by (simp add: test_files_def test_runtime_def)
  have h6: "empty_yields_empty test_runtime test_options"
    by (simp add: empty_yields_empty_def test_runtime_def)
  from empty_file_stays_empty [OF h1 h2 h3 h4 h5 h6, of "[2, 0, 2, 0]"] h1 h2 h3 h4 h5 h6
  show ?thesis
    by (simp add: r)
qed

text \<open>
  C5. A build outcome with no errors and a manifest, and a selected key whose task fails:
  its file does not exist, or the obfuscator throws on its content, or its path cannot be
  written. Once the two operations of that task have had their turn, the task has thrown,
  the callback's promise is rejected with the error one of the tasks threw, and it stays
  rejected with that error whatever completes afterwards. Every selected key whose task
  is done at that moment has its file holding the text the obfuscator returned for the
  file's original content, and the file keeps that text whatever completes afterwards.
  (Selected keys resolve to pairwise different paths.)
\<close>

theorem task_failure_rejects_the_callback:
  assumes "errors result = []" and "metafile result = Some m"
    and "distinct (map (resolve rt) (selected (Object_keys (outputs m))))"
    and "i < length (Object_keys (outputs m))"
    and "endsWith (Object_keys (outputs m) ! i) ''.js''"
    and "files w (resolve rt (Object_keys (outputs m) ! i)) = None
         \<or> (\<exists>code msg. files w (resolve rt (Object_keys (outputs m) ! i)) = Some code
               \<and> obfuscate rt code options = Inl msg)
         \<or> \<not> writable w (resolve rt (Object_keys (outputs m) ! i))"
    and "2 \<le> count_list sched i"
  shows "(\<exists>e. tasks (onEnd rt options sched result w) ! i = Failed e)
       \<and> (\<exists>e. outcome (onEnd rt options sched result w) = Rejected e
              \<and> Failed e \<in> set (tasks (onEnd rt options sched result w))
              \<and> (\<forall>more. outcome (onEnd rt options (sched @ more) result w) = Rejected e))
       \<and> (\<forall>j<length (Object_keys (outputs m)).
             endsWith (Object_keys (outputs m) ! j) ''.js''
             \<longrightarrow> tasks (onEnd rt options sched result w) ! j = Done
             \<longrightarrow> (\<exists>code obfuscatedCode.
                    files w (resolve rt (Object_keys (outputs m) ! j)) = Some code
                  \<and> obfuscate rt code options = Inr obfuscatedCode
                  \<and> (\<forall>more. files (fs (onEnd rt options (sched @ more) result w))
                               (resolve rt (Object_keys (outputs m) ! j))
                             = Some obfuscatedCode)))"
proof (intro conjI allI impI)
  let ?ks = "Object_keys (outputs m)"
  let ?st = "onEnd rt options sched result w"
  have st: "onEnd rt options s result w = run rt options s (start rt ?ks w)" for s
    using assms(1,2) by (rule onEnd_metafile)
  have "tasks ?st ! i = fst (expected rt options w (?ks ! i) (count_list sched i))"
    using assms(1-5) by (rule onEnd_task)
  with expected_failure [OF assms(6,7)]
  show failed: "\<exists>e. tasks ?st ! i = Failed e" by simp
  then obtain e0 where e0: "tasks ?st ! i = Failed e0" ..
  have ok: "rejection_ok ?st"
    unfolding st by (rule rejection_ok_run) (rule rejection_ok_start)
  have "i < length (tasks ?st)"
    using assms(4) by (simp add: st length_tasks_run)
  with ok obtain e where e: "outcome ?st = Rejected e" "rejection ?st = Some e"
      "Failed e \<in> set (tasks ?st)"
    using e0 failed_task_rejects by blast
  have "outcome (onEnd rt options (sched @ more) result w) = Rejected e" for more
  proof -
    have "rejection (run rt options more ?st) = Some e"
      using e(2) by (rule rejection_run)
    then show ?thesis
      by (simp add: st run_append outcome_def)
  qed
  with e show "\<exists>e. outcome ?st = Rejected e \<and> Failed e \<in> set (tasks ?st)
      \<and> (\<forall>more. outcome (onEnd rt options (sched @ more) result w) = Rejected e)"
    by blast
next
  let ?ks = "Object_keys (outputs m)"
  fix j
  assume j: "j < length ?ks" and js: "endsWith (?ks ! j) ''.js''"
    and fin: "tasks (onEnd rt options sched result w) ! j = Done"
  have "tasks (onEnd rt options sched result w) ! j
      = fst (expected rt options w (?ks ! j) (count_list sched j))"
    using assms(1-3) j js by (rule onEnd_task)
  with fin have "fst (expected rt options w (?ks ! j) (count_list sched j)) = Done"
    by simp
  from expected_Done [OF this] obtain code obfuscatedCode
    where n: "2 \<le> count_list sched j" and wr: "writable w (resolve rt (?ks ! j))"
      and rd: "files w (resolve rt (?ks ! j)) = Some code"
      and ob: "obfuscate rt code options = Inr obfuscatedCode"
    by blast
  have "files (fs (onEnd rt options (sched @ more) result w)) (resolve rt (?ks ! j))
      = Some obfuscatedCode" for more
  proof -
    from n have "2 \<le> count_list (sched @ more) j" by simp
    with rd ob wr have "expected rt options w (?ks ! j) (count_list (sched @ more) j)
        = (Done,
           [(?ks ! j, ReadFile (resolve rt (?ks ! j))), (?ks ! j, Obfuscate code options),
            (?ks ! j, WriteFile (resolve rt (?ks ! j)) obfuscatedCode)],
           Some obfuscatedCode)"
      by (rule expected_success)
    then show ?thesis
      by (simp add: onEnd_task(3) [OF assms(1-3) j js])
  qed
  with rd ob show "\<exists>code obfuscatedCode.
      files w (resolve rt (?ks ! j)) = Some code
    \<and> obfuscate rt code options = Inr obfuscatedCode
    \<and> (\<forall>more. files (fs (onEnd rt options (sched @ more) result w)) (resolve rt (?ks ! j))
               = Some obfuscatedCode)"
    by blast
qed

theorem task_failure_rejects_the_callback_witness:
  "errors test_broken_result = []
   \<and> metafile test_broken_result = Some \<lparr>outputs = [(''script.js'', ()), (''broken.js'', ())]\<rparr>
   \<and> distinct (map (resolve test_runtime) (selected [''script.js'', ''broken.js'']))
   \<and> endsWith ''broken.js'' ''.js''
   \<and> files test_files ''/tmp/broken.js'' = Some ''f(''
   \<and> obfuscate test_runtime ''f('' test_options = Inl ''Unexpected token''
   \<and> tasks (onEnd test_runtime test_options [0, 0, 1, 1] test_broken_result test_files) ! 1
       = Failed (ObfuscateError ''Unexpected token'')
   \<and> outcome (onEnd test_runtime test_options [0, 0, 1, 1] test_broken_result test_files)
       = Rejected (ObfuscateError ''Unexpected token'')
   \<and> tasks (onEnd test_runtime test_options [0, 0, 1, 1] test_broken_result test_files) ! 0
       = Done
   \<and> files (fs (onEnd test_runtime test_options [0, 0, 1, 1] test_broken_result test_files))
        ''/tmp/script.js'' = Some ''var _0x;test();''"
proof -
  let ?m = "\<lparr>outputs = [(''script.js'', ()), (''broken.js'', ())]\<rparr> :: unit Metafile"
  let ?st = "onEnd test_runtime test_options [0, 0, 1, 1] test_broken_result test_files"
  have h1: "errors test_broken_result = []"
    and h2: "metafile test_broken_result = Some ?m"
    by (simp_all add: test_broken_result_def)
  note ks = Object_keys_def
  have h3: "distinct (map (resolve test_runtime) (selected (Object_keys (outputs ?m))))"
    by (simp add: ks selected_def test_runtime_def endsWith_def)
  have h4: "1 < length (Object_keys (outputs ?m))"
    and h4': "0 < length (Object_keys (outputs ?m))"
    by (simp_all add: ks)
  have h5: "endsWith (Object_keys (outputs ?m) ! 1) ''.js''"
    and h5': "endsWith (Object_keys (outputs ?m) ! 0) ''.js''"
    by (simp_all add: ks endsWith_def)
  have rd: "files test_files ''/tmp/broken.js'' = Some ''f(''"
    and ob: "obfuscate test_runtime ''f('' test_options = Inl ''Unexpected token''"
    by (simp_all add: ks test_files_def test_runtime_def)
  have h6: "files test_files (resolve test_runtime (Object_keys (outputs ?m) ! 1)) = None
      \<or> (\<exists>code msg. files test_files (resolve test_runtime (Object_keys (outputs ?m) ! 1))
              = Some code \<and> obfuscate test_runtime code test_options = Inl msg)
      \<or> \<not> writable test_files (resolve test_runtime (Object_keys (outputs ?m) ! 1))"
    by (simp add: ks test_files_def test_runtime_def)
  have h7: "2 \<le> count_list [0, 0, 1, 1] (1::nat)"
    by simp
  have t0: "tasks ?st ! 0 = Done"
    unfolding onEnd_task(1) [OF h1 h2 h3 h4' h5']
    by (simp add: ks expected_def Let_def test_files_def test_runtime_def)
  have t1: "tasks ?st ! 1 = Failed (ObfuscateError ''Unexpected token'')"
    unfolding onEnd_task(1) [OF h1 h2 h3 h4 h5]
    by (simp add: ks expected_def Let_def test_files_def test_runtime_def)
  have len: "length (tasks ?st) = 2"
    unfolding onEnd_metafile [OF h1 h2] length_tasks_run by (simp add: ks)
  note failure = task_failure_rejects_the_callback [OF h1 h2 h3 h4 h5 h6 h7]
  from failure obtain e where e: "outcome ?st = Rejected e" "Failed e \<in> set (tasks ?st)"
    by blast
  from e(2) len obtain j where "j < 2" "tasks ?st ! j = Failed e"
    by (auto simp: in_set_conv_nth)
  with t0 t1 have "e = ObfuscateError ''Unexpected token''"
    by (cases j) (auto simp: less_Suc_eq)
  with e(1) have rej: "outcome ?st = Rejected (ObfuscateError ''Unexpected token'')"
    by simp
  from failure h4' h5' t0 obtain code obfuscatedCode
    where "files test_files (resolve test_runtime (Object_keys (outputs ?m) ! 0)) = Some code"
      and "obfuscate test_runtime code test_options = Inr obfuscatedCode"
      and "files (fs (onEnd test_runtime test_options ([0, 0, 1, 1] @ []) test_broken_result
             test_files)) (resolve test_runtime (Object_keys (outputs ?m) ! 0))
           = Some obfuscatedCode"
    by blast
  then have kept: "files (fs ?st) ''/tmp/script.js'' = Some ''var _0x;test();''"
    by (auto simp: ks test_files_def test_runtime_def)
  from h1 h2 h3 h5 rd ob t1 rej t0 kept show ?thesis
    by (simp add: ks)
qed



end
